theory Spec2Isabelle
  imports Main "HOL-Library.Word"
begin

section \<open>Strings and the host platform\<close>

text \<open>
  The search engine of \<^verbatim>\<open>src/components/DocumentSearchModal.tsx\<close> works on
  ECMAScript strings: finite sequences of 16-bit UTF-16 code units, indexed from 0,
  whose \<^verbatim>\<open>length\<close> counts code units.
\<close>

type_synonym jschar = "16 word"
type_synonym jsstring = "jschar list"

definition js :: "string \<Rightarrow> jsstring" where
  "js s = map of_char s"

text \<open>
  What the program takes from the language runtime and not from its own source is a
  parameter of the model: \<^verbatim>\<open>String.prototype.toLowerCase\<close>, the Unicode property
  tables behind \<^verbatim>\<open>\p{L}\<close> and \<^verbatim>\<open>\p{N}\<close> (read on a string of one code unit), and
  the regular expression compiler \<^verbatim>\<open>new RegExp(source, flags)\<close>.

  A compiled pattern is its matcher: \<open>m line i\<close> is the attempt to match at position
  \<open>i\<close> of \<open>line\<close>; \<open>None\<close> is failure and \<open>Some n\<close> is a match whose matched text
  \<^verbatim>\<open>result[0]\<close> has \<open>n\<close> code units (the match state's end index is \<open>i + n\<close>; a
  matcher of ECMAScript never moves the end index before the start of the attempt).
  \<open>regexCompile\<close> returns \<open>None\<close> where the constructor throws.
\<close>

type_synonym matcher = "jsstring \<Rightarrow> nat \<Rightarrow> nat option"

record platform =
  toLowerCase :: "jsstring \<Rightarrow> jsstring"
  isLetter :: "jschar \<Rightarrow> bool"
  isNumber :: "jschar \<Rightarrow> bool"
  regexCompile :: "jsstring \<Rightarrow> jsstring \<Rightarrow> matcher option"

text \<open>\<^verbatim>\<open>s[i]\<close>: the code unit at index \<open>i\<close>, or \<^verbatim>\<open>undefined\<close> out of range.\<close>

definition charAt :: "jsstring \<Rightarrow> int \<Rightarrow> jschar option" where
  "charAt s i = (if 0 \<le> i \<and> i < int (length s) then Some (s ! nat i) else None)"

text \<open>
  \<^verbatim>\<open>s.indexOf(q, pos)\<close>: the least index \<open>k \<ge> min pos (length s)\<close> at which \<open>q\<close>
  occurs in \<open>s\<close>, or \<open>-1\<close>.
\<close>

fun indexOfAux :: "jsstring \<Rightarrow> jsstring \<Rightarrow> nat \<Rightarrow> int" where
  "indexOfAux q [] k = (if q = [] then int k else -1)"
| "indexOfAux q (c # cs) k =
     (if take (length q) (c # cs) = q then int k else indexOfAux q cs (k + 1))"

definition indexOf :: "jsstring \<Rightarrow> jsstring \<Rightarrow> nat \<Rightarrow> int" where
  "indexOf s q pos = (let start = min pos (length s) in indexOfAux q (drop start s) start)"

text \<open>\<^verbatim>\<open>s.slice(start, end)\<close>, with the negative and out-of-range cases of the language.\<close>

definition slice :: "jsstring \<Rightarrow> int \<Rightarrow> int \<Rightarrow> jsstring" where
  "slice s start fin =
     (let len = int (length s);
          from = (if start < 0 then max (len + start) 0 else min start len);
          to = (if fin < 0 then max (len + fin) 0 else min fin len)
      in take (nat (max (to - from) 0)) (drop (nat from) s))"

text \<open>
  \<^verbatim>\<open>s.trim()\<close>: removes leading and trailing white space and line terminators.
\<close>

definition isWhiteSpace :: "jschar \<Rightarrow> bool" where
  "isWhiteSpace c =
     (c = 0x09 \<or> c = 0x0A \<or> c = 0x0B \<or> c = 0x0C \<or> c = 0x0D \<or> c = 0x20 \<or> c = 0xA0
      \<or> c = 0x1680 \<or> (0x2000 \<le> c \<and> c \<le> 0x200A) \<or> c = 0x2028 \<or> c = 0x2029
      \<or> c = 0x202F \<or> c = 0x205F \<or> c = 0x3000 \<or> c = 0xFEFF)"

definition trim :: "jsstring \<Rightarrow> jsstring" where
  "trim s = rev (dropWhile isWhiteSpace (rev (dropWhile isWhiteSpace s)))"

section \<open>Data model\<close>

record SearchOptions =
  caseSensitive :: bool
  wholeWord :: bool
  regex :: bool

record LineMatch =
  lineNumber :: nat
  occurrences :: nat
  preview :: jsstring

record SearchResult =
  matches :: "LineMatch list"
  totalOccurrences :: int
  totalMatchedLines :: int
  isTruncated :: bool
  errorMessage :: "string option"

definition MAX_MATCH_LINES :: nat where
  "MAX_MATCH_LINES = 500"

definition SNIPPET_PADDING :: int where
  "SNIPPET_PADDING = 40"

section \<open>Snippets and word boundaries\<close>

definition createPreview :: "jsstring \<Rightarrow> int \<Rightarrow> int \<Rightarrow> jsstring" where
  "createPreview line index matchLength =
     (if line = [] then js ''(empty line)''
      else
        let safeIndex = max 0 index;
            safeLength = max 1 matchLength;
            sliceStart = max 0 (safeIndex - SNIPPET_PADDING);
            sliceEnd = min (int (length line)) (safeIndex + safeLength + SNIPPET_PADDING);
            prefix = (if sliceStart > 0 then js ''...'' else []);
            suffix = (if sliceEnd < int (length line) then js ''...'' else [])
        in prefix @ slice line sliceStart sliceEnd @ suffix)"

text \<open>
  \<^verbatim>\<open>isWordCharacter\<close> receives \<^verbatim>\<open>line[i] ?? ""\<close>: one code unit, or the empty string
  where the index is out of range. The test \<^verbatim>\<open>/[\p{L}\p{N}_]/u\<close> on one code unit is
  a letter, a number or the underscore.
\<close>

definition isWordCharacter :: "platform \<Rightarrow> jschar option \<Rightarrow> bool" where
  "isWordCharacter P ch =
     (case ch of None \<Rightarrow> False
      | Some c \<Rightarrow> isLetter P c \<or> isNumber P c \<or> c = 0x5F)"

definition hasWordBoundaries :: "platform \<Rightarrow> jsstring \<Rightarrow> int \<Rightarrow> int \<Rightarrow> bool" where
  "hasWordBoundaries P line index matchLength =
     (let charBefore = charAt line (index - 1);
          charAfter = charAt line (index + matchLength)
      in \<not> isWordCharacter P charBefore \<and> \<not> isWordCharacter P charAfter)"

section \<open>Substring mode\<close>

lemma indexOfAux_ge: "indexOfAux q t k \<noteq> - 1 \<Longrightarrow> int k \<le> indexOfAux q t k"
  by (induction t arbitrary: k) (auto split: if_splits, fastforce)

lemma indexOf_ge: "indexOf s q pos \<noteq> - 1 \<Longrightarrow> pos \<le> length s \<Longrightarrow> int pos \<le> indexOf s q pos"
  using indexOfAux_ge [of q "drop pos s" pos] by (simp add: indexOf_def min_def)

text \<open>
  The \<^verbatim>\<open>while (fromIndex < searchTarget.length)\<close> loop of one line. The state is
  \<open>fromIndex\<close>, \<open>occurrences\<close> and \<open>firstMatchIndex\<close>; the result is the last two.
\<close>

function substringScan ::
  "platform \<Rightarrow> SearchOptions \<Rightarrow> jsstring \<Rightarrow> jsstring \<Rightarrow> jsstring \<Rightarrow> nat \<Rightarrow> nat \<Rightarrow> int \<Rightarrow> nat \<times> int"
where
  "substringScan P options line searchTarget normalizedQuery fromIndex occs firstMatchIndex =
     (if fromIndex < length searchTarget then
        (let foundIndex = indexOf searchTarget normalizedQuery fromIndex in
         if foundIndex = - 1 then (occs, firstMatchIndex)
         else
           let isWholeWordMatch =
                 (\<not> wholeWord options
                  \<or> hasWordBoundaries P line foundIndex (int (length normalizedQuery)))
           in substringScan P options line searchTarget normalizedQuery
                (nat foundIndex + max 1 (length normalizedQuery))
                (if isWholeWordMatch then occs + 1 else occs)
                (if isWholeWordMatch \<and> firstMatchIndex = - 1 then foundIndex
                 else firstMatchIndex))
      else (occs, firstMatchIndex))"
  by pat_completeness auto
termination
proof (relation "measure (\<lambda>(P, options, line, searchTarget, normalizedQuery, fromIndex, occs, f).
                    length searchTarget - fromIndex)", goal_cases)
  case 1
  show ?case by simp
next
  case (2 P options line searchTarget normalizedQuery fromIndex occs firstMatchIndex x xa)
  then have "int fromIndex \<le> x"
    using indexOf_ge [of searchTarget normalizedQuery fromIndex] by simp
  with 2 show ?case by simp
qed

declare substringScan.simps [simp del]

definition truncatedResult :: "LineMatch list \<Rightarrow> SearchResult" where
  "truncatedResult ms =
     \<lparr>matches = ms, totalOccurrences = - 1, totalMatchedLines = - 1,
      isTruncated = True, errorMessage = None\<rparr>"

definition completeResult :: "LineMatch list \<Rightarrow> SearchResult" where
  "completeResult ms =
     \<lparr>matches = ms, totalOccurrences = foldl (\<lambda>sum m. sum + int (occurrences m)) 0 ms,
      totalMatchedLines = int (length ms), isTruncated = False, errorMessage = None\<rparr>"

text \<open>
  The body of the \<^verbatim>\<open>for\<close> loop up to its counts: \<open>occurrences\<close> and
  \<open>firstMatchIndex\<close> of one line.
\<close>

definition substringLine :: "platform \<Rightarrow> SearchOptions \<Rightarrow> jsstring \<Rightarrow> jsstring \<Rightarrow> nat \<times> int" where
  "substringLine P options normalizedQuery line =
     (let searchTarget = (if caseSensitive options then line else toLowerCase P line)
      in substringScan P options line searchTarget normalizedQuery 0 0 (- 1))"

text \<open>
  The \<^verbatim>\<open>for\<close> loop over the lines: \<open>index\<close> is the loop counter, \<open>ms\<close> the array
  \<^verbatim>\<open>matches\<close> built so far, and the list argument holds the lines from \<open>index\<close> on.
\<close>

fun substringLines ::
  "platform \<Rightarrow> SearchOptions \<Rightarrow> jsstring \<Rightarrow> jsstring \<Rightarrow> jsstring list \<Rightarrow> nat \<Rightarrow> LineMatch list \<Rightarrow> SearchResult"
where
  "substringLines P options query normalizedQuery [] index ms = completeResult ms"
| "substringLines P options query normalizedQuery (line # rest) index ms =
     (case substringLine P options normalizedQuery line of
        (occs, firstMatchIndex) \<Rightarrow>
          if occs = 0 then substringLines P options query normalizedQuery rest (index + 1) ms
          else if length ms \<ge> MAX_MATCH_LINES then truncatedResult ms
          else substringLines P options query normalizedQuery rest (index + 1)
                 (ms @ [\<lparr>lineNumber = index + 1, occurrences = occs,
                          preview = createPreview line firstMatchIndex (int (length query))\<rparr>]))"

definition searchBySubstring :: "platform \<Rightarrow> jsstring list \<Rightarrow> jsstring \<Rightarrow> SearchOptions \<Rightarrow> SearchResult" where
  "searchBySubstring P lines query options =
     (let normalizedQuery = (if caseSensitive options then query else toLowerCase P query)
      in substringLines P options query normalizedQuery lines 0 [])"

section \<open>Regular expression mode\<close>

text \<open>
  \<^verbatim>\<open>regex.exec(line)\<close> on a pattern compiled with the \<^verbatim>\<open>g\<close> flag, as the language
  defines it: starting at \<^verbatim>\<open>lastIndex\<close>, try each position in turn; past the end of the
  line the result is \<^verbatim>\<open>null\<close> and \<^verbatim>\<open>lastIndex\<close> becomes 0; at a match the result
  carries the position and the matched text, and \<^verbatim>\<open>lastIndex\<close> becomes the end of the
  match. \<open>regexFind\<close> is the search, \<open>regexExec\<close> returns the result and the new
  \<^verbatim>\<open>lastIndex\<close>.
\<close>

function regexFind :: "matcher \<Rightarrow> jsstring \<Rightarrow> nat \<Rightarrow> (nat \<times> nat) option" where
  "regexFind m line i =
     (if i > length line then None
      else case m line i of Some n \<Rightarrow> Some (i, n) | None \<Rightarrow> regexFind m line (i + 1))"
  by pat_completeness auto
termination
  by (relation "measure (\<lambda>(m, line, i). length line + 1 - i)") auto

declare regexFind.simps [simp del]

definition regexExec :: "matcher \<Rightarrow> jsstring \<Rightarrow> nat \<Rightarrow> (nat \<times> nat) option \<times> nat" where
  "regexExec m line lastIndex =
     (case regexFind m line lastIndex of
        None \<Rightarrow> (None, 0)
      | Some (i, n) \<Rightarrow> (Some (i, n), i + n))"

text \<open>
  One turn of the \<^verbatim>\<open>while (result)\<close> loop together with the \<^verbatim>\<open>exec\<close> call that
  produced its \<^verbatim>\<open>result\<close>. The state is \<open>(lastIndex, occurrences, firstMatchIndex,
  firstMatchLength)\<close>; \<open>None\<close> is the exit of the loop.
\<close>

type_synonym regexState = "nat \<times> nat \<times> int \<times> int"

definition regexStep :: "matcher \<Rightarrow> jsstring \<Rightarrow> regexState \<Rightarrow> regexState option" where
  "regexStep m line st =
     (case st of (lastIndex, occs, firstMatchIndex, firstMatchLength) \<Rightarrow>
        (case regexExec m line lastIndex of
           (None, lastIndex') \<Rightarrow> None
         | (Some (index, n), lastIndex') \<Rightarrow>
             Some (if n = 0 then lastIndex' + 1 else lastIndex',
                   occs + 1,
                   if firstMatchIndex = - 1 then int index else firstMatchIndex,
                   if firstMatchIndex = - 1 then max 1 (int n) else firstMatchLength)))"

lemma regexFind_bounds:
  "regexFind m line i = Some (j, n) \<Longrightarrow> i \<le> j \<and> j \<le> length line"
proof (induction m line i rule: regexFind.induct)
  case (1 m line i)
  then show ?case
    by (subst (asm) (2) regexFind.simps) (fastforce split: if_splits option.splits)
qed

lemma regexStep_advances:
  "regexStep m line (li, st) = Some (li', st') \<Longrightarrow> li < li' \<and> li \<le> length line"
  by (cases st)
     (auto simp: regexStep_def regexExec_def split: option.splits if_splits prod.splits
           dest!: regexFind_bounds)

text \<open>
  The loop: it runs until \<^verbatim>\<open>exec\<close> returns \<^verbatim>\<open>null\<close> and leaves \<open>(occurrences,
  firstMatchIndex, firstMatchLength)\<close>.
\<close>

function regexScan :: "matcher \<Rightarrow> jsstring \<Rightarrow> regexState \<Rightarrow> nat \<times> int \<times> int" where
  "regexScan m line st =
     (case regexStep m line st of None \<Rightarrow> snd st | Some st' \<Rightarrow> regexScan m line st')"
  by pat_completeness auto
termination
proof (relation "measure (\<lambda>(m, line, st). length line + 1 - fst st)", goal_cases)
  case 1
  show ?case by simp
next
  case (2 m line st st')
  then show ?case
    using regexStep_advances [of m line "fst st" "snd st" "fst st'" "snd st'"]
    by simp linarith
qed

declare regexScan.simps [simp del]

definition errorResult :: SearchResult where
  "errorResult =
     \<lparr>matches = [], totalOccurrences = 0, totalMatchedLines = 0,
      isTruncated = False, errorMessage = Some ''Invalid regular expression.''\<rparr>"

text \<open>The counts of one line: the scan from \<^verbatim>\<open>lastIndex = 0\<close> with nothing found yet.\<close>

definition regexLine :: "matcher \<Rightarrow> jsstring \<Rightarrow> nat \<times> int \<times> int" where
  "regexLine m line = regexScan m line (0, 0, - 1, 0)"

fun regexLines :: "matcher \<Rightarrow> jsstring list \<Rightarrow> nat \<Rightarrow> LineMatch list \<Rightarrow> SearchResult" where
  "regexLines m [] index ms = completeResult ms"
| "regexLines m (line # rest) index ms =
     (case regexLine m line of
        (occs, firstMatchIndex, firstMatchLength) \<Rightarrow>
          if occs = 0 then regexLines m rest (index + 1) ms
          else if length ms \<ge> MAX_MATCH_LINES then truncatedResult ms
          else regexLines m rest (index + 1)
                 (ms @ [\<lparr>lineNumber = index + 1, occurrences = occs,
                          preview = createPreview line firstMatchIndex firstMatchLength\<rparr>]))"

text \<open>The source text handed to the compiler: \<^verbatim>\<open>\b(?:query)\b\<close> under \<^verbatim>\<open>wholeWord\<close>.\<close>

definition regexSource :: "jsstring \<Rightarrow> SearchOptions \<Rightarrow> jsstring" where
  "regexSource query options =
     (if wholeWord options then [0x5C, 0x62] @ js ''(?:'' @ query @ js '')'' @ [0x5C, 0x62]
      else query)"

definition regexFlags :: "SearchOptions \<Rightarrow> jsstring" where
  "regexFlags options = (if caseSensitive options then js ''g'' else js ''gi'')"

definition searchByRegex :: "platform \<Rightarrow> jsstring list \<Rightarrow> jsstring \<Rightarrow> SearchOptions \<Rightarrow> SearchResult" where
  "searchByRegex P lines query options =
     (case regexCompile P (regexSource query options) (regexFlags options) of
        None \<Rightarrow> errorResult
      | Some m \<Rightarrow> regexLines m lines 0 [])"

section \<open>Entry points\<close>

definition idleResult :: SearchResult where
  "idleResult =
     \<lparr>matches = [], totalOccurrences = 0, totalMatchedLines = 0,
      isTruncated = False, errorMessage = None\<rparr>"

definition searchMarkdownLines :: "platform \<Rightarrow> jsstring list \<Rightarrow> jsstring \<Rightarrow> SearchOptions \<Rightarrow> SearchResult" where
  "searchMarkdownLines P lines query options =
     (if query = [] then idleResult
      else if regex options then searchByRegex P lines query options
      else searchBySubstring P lines query options)"

text \<open>
  The call of the component:
  \<^verbatim>\<open>searchMarkdownLines(lines, debouncedQuery.trim(), options)\<close>.
\<close>

definition search :: "platform \<Rightarrow> jsstring list \<Rightarrow> jsstring \<Rightarrow> SearchOptions \<Rightarrow> SearchResult" where
  "search P lines debouncedQuery options = searchMarkdownLines P lines (trim debouncedQuery) options"

section \<open>A reference platform\<close>

text \<open>
  An instance of the platform, for evaluating the model on concrete inputs. It follows
  ECMAScript on the part of Unicode and of the pattern language that the examples below
  use: case mapping and the general categories L and N on Basic Latin, Latin-1
  Supplement and U+0130 (whose lower case is the two code units U+0069 U+0307), and
  patterns made of literal characters, a literal character under \<^verbatim>\<open>*\<close>, the assertion
  \<^verbatim>\<open>\b\<close> and non-capturing groups that no quantifier follows. Inside that part a source
  that the language rejects (an unterminated group, an unmatched \<^verbatim>\<open>)\<close>, a quantifier
  with nothing to repeat, a trailing backslash) compiles to \<open>None\<close>. A source outside
  that part also gives \<open>None\<close>; nothing below evaluates the instance there.
\<close>

definition refLowerUnit :: "jschar \<Rightarrow> jsstring" where
  "refLowerUnit c =
     (if (0x41 \<le> c \<and> c \<le> 0x5A) \<or> (0xC0 \<le> c \<and> c \<le> 0xDE \<and> c \<noteq> 0xD7) then [c + 0x20]
      else if c = 0x130 then [0x69, 0x307]
      else [c])"

definition refToLowerCase :: "jsstring \<Rightarrow> jsstring" where
  "refToLowerCase s = concat (map refLowerUnit s)"

definition refIsLetter :: "jschar \<Rightarrow> bool" where
  "refIsLetter c =
     ((0x41 \<le> c \<and> c \<le> 0x5A) \<or> (0x61 \<le> c \<and> c \<le> 0x7A)
      \<or> c = 0xAA \<or> c = 0xB5 \<or> c = 0xBA
      \<or> (0xC0 \<le> c \<and> c \<le> 0xFF \<and> c \<noteq> 0xD7 \<and> c \<noteq> 0xF7) \<or> c = 0x130)"

definition refIsNumber :: "jschar \<Rightarrow> bool" where
  "refIsNumber c =
     ((0x30 \<le> c \<and> c \<le> 0x39) \<or> c = 0xB2 \<or> c = 0xB3 \<or> c = 0xB9
      \<or> (0xBC \<le> c \<and> c \<le> 0xBE))"

datatype rxItem = Chr jschar | Star jschar | WordB

definition refSyntaxChar :: "jschar \<Rightarrow> bool" where
  "refSyntaxChar c = (c \<in> set (js ''^$.*+?()[]{}|'') \<or> c = 0x5C)"

text \<open>
  The parser: \<open>depth\<close> counts the open groups. A non-capturing group that no quantifier
  follows matches what its body matches, so the body is spliced into the sequence.
\<close>

fun refParse :: "jsstring \<Rightarrow> nat \<Rightarrow> rxItem list option" where
  "refParse [] depth = (if depth = 0 then Some [] else None)"
| "refParse (c # cs) depth =
     (if c = 0x5C then
        (case cs of
           [] \<Rightarrow> None
         | b # r \<Rightarrow> if b = 0x62 then map_option ((#) WordB) (refParse r depth) else None)
      else if c = 0x28 then
        (case cs of
           q # k # r \<Rightarrow> if q = 0x3F \<and> k = 0x3A then refParse r (depth + 1) else None
         | _ \<Rightarrow> None)
      else if c = 0x29 then (if depth > 0 then refParse cs (depth - 1) else None)
      else if refSyntaxChar c then None
      else
        (case cs of
           [] \<Rightarrow> map_option ((#) (Chr c)) (refParse cs depth)
         | s # r \<Rightarrow>
             if s = 0x2A then map_option ((#) (Star c)) (refParse r depth)
             else map_option ((#) (Chr c)) (refParse cs depth)))"

text \<open>
  Case-insensitive comparison maps each code unit to its upper case; \<^verbatim>\<open>\b\<close> holds
  between a word character and a non-word character, where the word characters of the
  pattern language are the ASCII letters, the ASCII digits and the underscore.
\<close>

definition refCanonicalize :: "bool \<Rightarrow> jschar \<Rightarrow> jschar" where
  "refCanonicalize ignoreCase c =
     (if ignoreCase \<and> ((0x61 \<le> c \<and> c \<le> 0x7A) \<or> (0xE0 \<le> c \<and> c \<le> 0xFE \<and> c \<noteq> 0xF7))
      then c - 0x20 else c)"

definition refIsWordChar :: "jsstring \<Rightarrow> int \<Rightarrow> bool" where
  "refIsWordChar s i =
     (case charAt s i of
        None \<Rightarrow> False
      | Some c \<Rightarrow> (0x61 \<le> c \<and> c \<le> 0x7A) \<or> (0x41 \<le> c \<and> c \<le> 0x5A)
                  \<or> (0x30 \<le> c \<and> c \<le> 0x39) \<or> c = 0x5F)"

fun firstSome :: "'a option list \<Rightarrow> 'a option" where
  "firstSome [] = None"
| "firstSome (None # xs) = firstSome xs"
| "firstSome (Some x # xs) = Some x"

text \<open>
  The backtracking matcher: the end index of the match of the items at position \<open>i\<close>.
  A starred character is greedy: the longest run is tried first, then shorter ones.
\<close>

fun refMatch :: "bool \<Rightarrow> rxItem list \<Rightarrow> jsstring \<Rightarrow> nat \<Rightarrow> nat option" where
  "refMatch ic [] s i = Some i"
| "refMatch ic (Chr c # r) s i =
     (if i < length s \<and> refCanonicalize ic (s ! i) = refCanonicalize ic c
      then refMatch ic r s (i + 1) else None)"
| "refMatch ic (WordB # r) s i =
     (if refIsWordChar s (int i - 1) \<noteq> refIsWordChar s (int i) then refMatch ic r s i
      else None)"
| "refMatch ic (Star c # r) s i =
     (let run = length (takeWhile (\<lambda>d. refCanonicalize ic d = refCanonicalize ic c) (drop i s))
      in firstSome (map (\<lambda>k. refMatch ic r s (i + k)) (rev [0 ..< Suc run])))"

definition refCompile :: "jsstring \<Rightarrow> jsstring \<Rightarrow> matcher option" where
  "refCompile source flags =
     map_option (\<lambda>items line i. map_option (\<lambda>e. e - i) (refMatch (0x69 \<in> set flags) items line i))
       (refParse source 0)"

definition referencePlatform :: platform where
  "referencePlatform =
     \<lparr>toLowerCase = refToLowerCase, isLetter = refIsLetter, isNumber = refIsNumber,
      regexCompile = refCompile\<rparr>"

section \<open>Statements of the specification\<close>

text \<open>
  The counts of one line in the active mode, as \<open>(occurrences, firstMatchIndex, length
  given to the preview)\<close>; \<open>None\<close> where the pattern of regular expression mode does
  not compile.
\<close>

definition lineScan :: "platform \<Rightarrow> jsstring \<Rightarrow> SearchOptions \<Rightarrow> (jsstring \<Rightarrow> nat \<times> int \<times> int) option" where
  "lineScan P query options =
     (if regex options then
        map_option regexLine
          (regexCompile P (regexSource query options) (regexFlags options))
      else
        Some (\<lambda>line.
          case substringLine P options
                 (if caseSensitive options then query else toLowerCase P query) line of
            (occs, firstMatchIndex) \<Rightarrow> (occs, firstMatchIndex, int (length query))))"

text \<open>
  The specification's result, in its own words: \<open>specHits\<close> is one \<open>LineMatch\<close> per
  line with at least one occurrence, in ascending line order (the first line has number
  \<open>index + 1\<close>); \<open>specCapped\<close> keeps the first 500 of them with the sentinel totals when
  there are more than 500, and reports exact totals otherwise.
\<close>

definition specHits :: "(jsstring \<Rightarrow> nat \<times> int \<times> int) \<Rightarrow> nat \<Rightarrow> jsstring list \<Rightarrow> LineMatch list" where
  "specHits scan index lines =
     List.map_filter
       (\<lambda>(i, line).
          case scan line of
            (occs, firstMatchIndex, len) \<Rightarrow>
              if occs = 0 then None
              else Some \<lparr>lineNumber = i + 1, occurrences = occs,
                         preview = createPreview line firstMatchIndex len\<rparr>)
       (enumerate index lines)"

definition specCapped :: "LineMatch list \<Rightarrow> SearchResult" where
  "specCapped hits =
     (if length hits > 500 then
        \<lparr>matches = take 500 hits, totalOccurrences = - 1, totalMatchedLines = - 1,
         isTruncated = True, errorMessage = None\<rparr>
      else
        \<lparr>matches = hits, totalOccurrences = sum_list (map (\<lambda>m. int (occurrences m)) hits),
         totalMatchedLines = int (length hits), isTruncated = False, errorMessage = None\<rparr>)"

text \<open>
  The transition relation of the \<^verbatim>\<open>while (result)\<close> loop on one line: \<open>st'\<close> follows
  \<open>st\<close> when a turn of the loop leads from \<open>st\<close> to \<open>st'\<close>. The loop terminates from
  every state when the relation is well-founded.
\<close>

definition regexLoopRel :: "matcher \<Rightarrow> jsstring \<Rightarrow> (regexState \<times> regexState) set" where
  "regexLoopRel m line = {(st', st). regexStep m line st = Some st'}"

text \<open>
  The specification's scan of substring mode, in its own words: go through the line from
  left to right, one position at a time; where the query occurs, record the position
  \<open>p\<close> and resume at \<open>p + max 1 (length q)\<close>, that is, skip the next
  \<open>max 1 (length q) - 1\<close> positions. \<open>skip\<close> counts the positions still to pass over and
  \<open>pos\<close> is the index of the head of the remaining text.
\<close>

fun specMatches :: "jsstring \<Rightarrow> jsstring \<Rightarrow> nat \<Rightarrow> nat \<Rightarrow> nat list" where
  "specMatches q [] skip pos = []"
| "specMatches q (c # cs) skip pos =
     (if skip > 0 then specMatches q cs (skip - 1) (pos + 1)
      else if take (length q) (c # cs) = q
        then pos # specMatches q cs (max 1 (length q) - 1) (pos + 1)
      else specMatches q cs 0 (pos + 1))"

section \<open>Example inputs\<close>

text \<open>A document of 501 lines, pairwise different, that all contain \<^verbatim>\<open>cat\<close>.\<close>

definition exampleLines :: "jsstring list" where
  "exampleLines = map (\<lambda>i. js ''cat'' @ [of_nat i]) [0 ..< 501]"

definition smallDocument :: "jsstring list" where
  "smallDocument = [js ''concatenate cat category'', js ''dog'', js ''a Cat'']"

text \<open>
  The pattern \<^verbatim>\<open>a*\<close> compiled on the reference platform, and a line of 103 code units
  with \<^verbatim>\<open>cat\<close> at offset 50.
\<close>

definition astarMatcher :: matcher where
  "astarMatcher = (\<lambda>line i. map_option (\<lambda>e. e - i) (refMatch False [Star 0x61] line i))"

definition longLine :: jsstring where
  "longLine = replicate 50 0x78 @ js ''cat'' @ replicate 50 0x79"

section \<open>The loops over the lines\<close>

lemma foldl_occurrences:
  "foldl (\<lambda>sum m. sum + int (occurrences m)) a ms = a + sum_list (map (\<lambda>m. int (occurrences m)) ms)"
  by (induction ms arbitrary: a) auto

lemma completeResult_spec:
  "length ms \<le> 500 \<Longrightarrow> completeResult ms = specCapped ms"
  by (simp add: completeResult_def specCapped_def foldl_occurrences)

lemma truncatedResult_spec:
  "length ms = 500 \<Longrightarrow> truncatedResult ms = specCapped (ms @ h # hs)"
  by (simp add: truncatedResult_def specCapped_def)

lemma specHits_Nil: "specHits scan index [] = []"
  by (simp add: specHits_def List.map_filter_simps)

lemma specHits_Cons:
  "specHits scan index (line # rest) =
     (case scan line of
        (occs, firstMatchIndex, len) \<Rightarrow>
          if occs = 0 then specHits scan (index + 1) rest
          else \<lparr>lineNumber = index + 1, occurrences = occs,
                 preview = createPreview line firstMatchIndex len\<rparr> # specHits scan (index + 1) rest)"
  by (simp add: specHits_def List.map_filter_simps split: prod.splits)

lemma substringLines_spec:
  assumes "length ms \<le> 500"
  shows "substringLines P options query nq lines index ms =
           specCapped (ms @ specHits (\<lambda>line. case substringLine P options nq line of
                                        (occs, f) \<Rightarrow> (occs, f, int (length query))) index lines)"
  using assms
proof (induction lines arbitrary: index ms)
  case Nil
  then show ?case by (simp add: specHits_Nil completeResult_spec)
next
  case (Cons line rest)
  obtain occs f where scan: "substringLine P options nq line = (occs, f)"
    by (cases "substringLine P options nq line")
  show ?case
  proof (cases "occs = 0")
    case True
    with scan Cons show ?thesis by (simp add: specHits_Cons)
  next
    case False
    show ?thesis
    proof (cases "length ms \<ge> 500")
      case True
      with Cons.prems have "length ms = 500" by simp
      with scan False show ?thesis
        by (simp add: specHits_Cons MAX_MATCH_LINES_def truncatedResult_spec)
    next
      case short: False
      then have "length (ms @ [\<lparr>lineNumber = index + 1, occurrences = occs,
                   preview = createPreview line f (int (length query))\<rparr>]) \<le> 500"
        by simp
      from Cons.IH [OF this, of "index + 1"] scan False short show ?thesis
        by (simp add: specHits_Cons MAX_MATCH_LINES_def)
    qed
  qed
qed

lemma regexLines_spec:
  assumes "length ms \<le> 500"
  shows "regexLines m lines index ms =
           specCapped (ms @ specHits (regexLine m) index lines)"
  using assms
proof (induction lines arbitrary: index ms)
  case Nil
  then show ?case by (simp add: specHits_Nil completeResult_spec)
next
  case (Cons line rest)
  obtain occs f len where scan: "regexLine m line = (occs, f, len)"
    by (cases "regexLine m line")
  show ?case
  proof (cases "occs = 0")
    case True
    with scan Cons show ?thesis by (simp add: specHits_Cons)
  next
    case False
    show ?thesis
    proof (cases "length ms \<ge> 500")
      case True
      with Cons.prems have "length ms = 500" by simp
      with scan False show ?thesis
        by (simp add: specHits_Cons MAX_MATCH_LINES_def truncatedResult_spec)
    next
      case short: False
      then have "length (ms @ [\<lparr>lineNumber = index + 1, occurrences = occs,
                   preview = createPreview line f len\<rparr>]) \<le> 500"
        by simp
      from Cons.IH [OF this, of "index + 1"] scan False short show ?thesis
        by (simp add: specHits_Cons MAX_MATCH_LINES_def)
    qed
  qed
qed

lemma search_spec:
  assumes "query \<noteq> []" and "lineScan P query options = Some scan"
  shows "searchMarkdownLines P lines query options = specCapped (specHits scan 0 lines)"
proof (cases "regex options")
  case True
  with assms(2) obtain m where
    m: "regexCompile P (regexSource query options) (regexFlags options) = Some m"
    and scan: "scan = regexLine m"
    by (auto simp: lineScan_def)
  with True assms(1) show ?thesis
    using regexLines_spec [of "[]" m lines 0]
    by (simp add: searchMarkdownLines_def searchByRegex_def)
next
  case False
  with assms show ?thesis
    using substringLines_spec [of "[]" P options query _ lines 0]
    by (auto simp: searchMarkdownLines_def searchBySubstring_def lineScan_def Let_def)
qed

lemma specHits_length_all:
  "\<forall>line \<in> set lines. fst (scan line) > 0 \<Longrightarrow> length (specHits scan index lines) = length lines"
  by (induction lines arbitrary: index) (auto simp: specHits_Nil specHits_Cons split: prod.splits)

lemma lineScan_None:
  "lineScan P query options = None \<longleftrightarrow>
     regex options \<and> regexCompile P (regexSource query options) (regexFlags options) = None"
  by (simp add: lineScan_def)

lemma search_error:
  assumes "query \<noteq> []" and "lineScan P query options = None"
  shows "searchMarkdownLines P lines query options = errorResult"
  using assms by (simp add: lineScan_None searchMarkdownLines_def searchByRegex_def)

lemma specCapped_totals:
  "\<not> isTruncated (specCapped hs) \<Longrightarrow>
     totalOccurrences (specCapped hs) = sum_list (map (\<lambda>m. int (occurrences m)) (matches (specCapped hs)))
     \<and> totalMatchedLines (specCapped hs) = int (length (matches (specCapped hs)))"
  by (simp add: specCapped_def split: if_splits)

lemma specCapped_truncated:
  "isTruncated (specCapped hs) \<Longrightarrow>
     length (matches (specCapped hs)) = 500 \<and> errorMessage (specCapped hs) = None"
  by (simp add: specCapped_def split: if_splits)

lemma search_cases:
  "searchMarkdownLines P lines query options = idleResult
   \<or> searchMarkdownLines P lines query options = errorResult
   \<or> (\<exists>hs. searchMarkdownLines P lines query options = specCapped hs)"
proof (cases "query = []")
  case True
  then show ?thesis by (simp add: searchMarkdownLines_def)
next
  case False
  then show ?thesis
    using search_error [of query P options lines] search_spec [of query P options _ lines]
    by (cases "lineScan P query options") auto
qed

section \<open>The scan of one line\<close>

lemma indexOfAux_found: "indexOfAux q (pre @ q @ post) k \<noteq> - 1"
proof (induction pre arbitrary: k)
  case Nil
  show ?case
  proof (cases "q @ post")
    case Nil
    then show ?thesis by simp
  next
    case (Cons a list)
    have "take (length q) (q @ post) = q" by simp
    with Cons show ?thesis by simp
  qed
next
  case (Cons a pre)
  then show ?case by simp
qed

lemma substringScan_mono:
  "occs \<le> fst (substringScan P options line target nq fromIndex occs f)"
proof (induction P options line target nq fromIndex occs f rule: substringScan.induct)
  case (1 P options line target nq fromIndex occs f)
  show ?case
  proof (cases "fromIndex < length target \<and> indexOf target nq fromIndex \<noteq> - 1")
    case True
    then show ?thesis
      using "1.IH" [OF _ refl, of "\<not> wholeWord options \<or> hasWordBoundaries P line (indexOf target nq fromIndex) (int (length nq))"]
      by (subst substringScan.simps) (auto simp: Let_def split: if_splits)
  next
    case False
    then show ?thesis by (subst substringScan.simps) (auto simp: Let_def)
  qed
qed

lemma substringLine_contains:
  assumes "\<not> wholeWord options" and "nq \<noteq> []"
    and "(if caseSensitive options then line else toLowerCase P line) = pre @ nq @ post"
  shows "0 < fst (substringLine P options nq line)"
proof -
  let ?t = "pre @ nq @ post"
  have found: "indexOf ?t nq 0 \<noteq> - 1"
    using indexOfAux_found [of nq pre post 0] by (simp add: indexOf_def)
  have "0 < length ?t" using assms(2) by simp
  then have "substringScan P options line ?t nq 0 0 (- 1) =
        substringScan P options line ?t nq (nat (indexOf ?t nq 0) + max 1 (length nq)) 1
          (indexOf ?t nq 0)"
    using found assms(1) by (subst substringScan.simps) (simp add: Let_def)
  moreover have "1 \<le> fst (substringScan P options line ?t nq
      (nat (indexOf ?t nq 0) + max 1 (length nq)) 1 (indexOf ?t nq 0))"
    by (rule substringScan_mono)
  ultimately show ?thesis
    using assms(3) by (simp add: substringLine_def Let_def)
qed

lemma specMatches_skip: "specMatches q t k pos = specMatches q (drop k t) 0 (pos + k)"
proof (induction t arbitrary: k pos)
  case Nil
  show ?case by simp
next
  case (Cons c cs)
  show ?case
  proof (cases k)
    case 0
    then show ?thesis by simp
  next
    case (Suc j)
    with Cons [of j "pos + 1"] show ?thesis by simp
  qed
qed

lemma specMatches_indexOfAux:
  assumes "q \<noteq> []"
  shows "specMatches q t 0 pos =
     (if indexOfAux q t pos = - 1 then []
      else nat (indexOfAux q t pos)
           # specMatches q (drop (nat (indexOfAux q t pos) - pos + length q) t) 0
               (nat (indexOfAux q t pos) + length q))"
proof (induction t arbitrary: pos)
  case Nil
  with assms show ?case by simp
next
  case (Cons c cs)
  show ?case
  proof (cases "take (length q) (c # cs) = q")
    case True
    have "max 1 (length q) = length q" using assms by (cases q) auto
    with True show ?thesis
      using specMatches_skip [of q cs "length q - 1" "pos + 1"] assms
      by (cases q) auto
  next
    case False
    show ?thesis
    proof (cases "indexOfAux q cs (pos + 1) = - 1")
      case True
      with False Cons [of "pos + 1"] show ?thesis by simp
    next
      case found: False
      then have "int (pos + 1) \<le> indexOfAux q cs (pos + 1)"
        by (rule indexOfAux_ge)
      then have "nat (indexOfAux q cs (pos + 1)) - pos = Suc (nat (indexOfAux q cs (pos + 1)) - (pos + 1))"
        by arith
      with False found Cons [of "pos + 1"] show ?thesis by simp
    qed
  qed
qed

lemma substringScan_spec:
  assumes "nq \<noteq> []"
  shows "fst (substringScan P options line target nq fromIndex occs f) =
           occs + length (filter (\<lambda>p. \<not> wholeWord options
                                       \<or> hasWordBoundaries P line (int p) (int (length nq)))
                           (specMatches nq (drop fromIndex target) 0 fromIndex))"
  using assms
proof (induction P options line target nq fromIndex occs f rule: substringScan.induct)
  case (1 P options line target nq fromIndex occs f)
  let ?found = "indexOf target nq fromIndex"
  let ?W = "\<lambda>p. \<not> wholeWord options \<or> hasWordBoundaries P line (int p) (int (length nq))"
  have len: "max (Suc 0) (length nq) = length nq"
    using "1.prems" by (cases nq) auto
  show ?case
  proof (cases "fromIndex < length target")
    case False
    then show ?thesis by (subst substringScan.simps) simp
  next
    case inside: True
    then have found: "?found = indexOfAux nq (drop fromIndex target) fromIndex"
      by (simp add: indexOf_def min_def)
    show ?thesis
    proof (cases "?found = - 1")
      case True
      with inside found show ?thesis
        using specMatches_indexOfAux [OF "1.prems", of "drop fromIndex target" fromIndex]
        by (subst substringScan.simps) simp
    next
      case False
      with found have ge: "int fromIndex \<le> ?found"
        using indexOfAux_ge [of nq "drop fromIndex target" fromIndex] by simp
      then have "0 \<le> ?found" by linarith
      then obtain k where k: "?found = int k"
        using nonneg_int_cases by blast
      with ge have fk: "fromIndex \<le> k" by simp
      from found k have aux: "indexOfAux nq (drop fromIndex target) fromIndex = int k"
        by simp
      from fk have ar: "k - fromIndex + length nq + fromIndex = k + length nq"
        by arith
      have walk: "specMatches nq (drop fromIndex target) 0 fromIndex =
          k # specMatches nq (drop (k + length nq) target) 0 (k + length nq)"
        by (subst specMatches_indexOfAux [OF "1.prems"]) (simp add: aux ar)
      have step: "substringScan P options line target nq fromIndex occs f =
          substringScan P options line target nq (k + length nq)
            (if ?W k then occs + 1 else occs)
            (if ?W k \<and> f = - 1 then int k else f)"
        by (subst substringScan.simps) (simp add: inside k len Let_def)
      have "fst (substringScan P options line target nq (k + length nq)
               (if ?W k then occs + 1 else occs)
               (if ?W k \<and> f = - 1 then int k else f)) =
            (if ?W k then occs + 1 else occs)
            + length (filter ?W (specMatches nq (drop (k + length nq) target) 0
                (k + length nq)))"
        using "1.IH" [OF inside refl False, unfolded k, OF refl "1.prems"]
        by (simp add: len)
      with step walk len show ?thesis by simp
    qed
  qed
qed

lemma regexScan_mono: "fst (snd st) \<le> fst (regexScan m line st)"
proof (induction m line st rule: regexScan.induct)
  case (1 m line st)
  show ?case
  proof (cases "regexStep m line st")
    case None
    then show ?thesis by (subst regexScan.simps) simp
  next
    case (Some st')
    then have "fst (snd st) \<le> fst (snd st')"
      by (auto simp: regexStep_def split: prod.splits option.splits)
    with Some "1.IH" [OF Some] show ?thesis by (subst regexScan.simps) simp
  qed
qed

lemma regexLine_found:
  assumes "regexFind m line 0 = Some r"
  shows "0 < fst (regexLine m line)"
proof -
  obtain st' where st': "regexStep m line (0, 0, - 1, 0) = Some st'" and "fst (snd st') = 1"
    using assms by (cases r) (auto simp: regexStep_def regexExec_def)
  then show ?thesis
    using regexScan_mono [of st' m line]
    by (subst regexLine_def, subst regexScan.simps) simp
qed

lemma regexLoopRel_measure:
  "regexLoopRel m line \<subseteq> measure (\<lambda>st. length line + 1 - fst st)"
proof
  fix p assume p: "p \<in> regexLoopRel m line"
  obtain st' st where [simp]: "p = (st', st)" by (cases p)
  from p have "regexStep m line (fst st, snd st) = Some (fst st', snd st')"
    by (simp add: regexLoopRel_def)
  from regexStep_advances [OF this] show "p \<in> measure (\<lambda>st. length line + 1 - fst st)"
    by simp linarith
qed

lemma regexScan_bound:
  "fst (regexScan m line st) + fst st \<le> fst (snd st) + (length line + 1) \<or> length line < fst st"
proof (induction m line st rule: regexScan.induct)
  case (1 m line st)
  show ?case
  proof (cases "regexStep m line st")
    case None
    then show ?thesis by (subst regexScan.simps) auto
  next
    case (Some st')
    then have occ: "fst (snd st') = fst (snd st) + 1"
      by (auto simp: regexStep_def split: prod.splits option.splits)
    from Some have adv: "fst st < fst st' \<and> fst st \<le> length line"
      using regexStep_advances [of m line "fst st" "snd st" "fst st'" "snd st'"] by simp
    have eq: "regexScan m line st = regexScan m line st'"
      using Some by (subst regexScan.simps) simp
    from "1.IH" [OF Some] show ?thesis
    proof
      assume "fst (regexScan m line st') + fst st' \<le> fst (snd st') + (length line + 1)"
      with occ adv eq show ?thesis by simp
    next
      assume far: "length line < fst st'"
      have "regexStep m line st' = None"
      proof (cases "regexStep m line st'")
        case (Some st'')
        then show ?thesis
          using regexStep_advances [of m line "fst st'" "snd st'" "fst st''" "snd st''"] far
          by simp
      qed simp
      then have "regexScan m line st' = snd st'"
        by (subst regexScan.simps) simp
      with occ adv eq show ?thesis by simp
    qed
  qed
qed

lemma trim_whitespace:
  assumes "\<forall>c \<in> set s. isWhiteSpace c"
  shows "trim s = []"
proof -
  from assms have "dropWhile isWhiteSpace s = []" by simp
  then show ?thesis by (simp only: trim_def dropWhile.simps rev.simps)
qed

section \<open>The window of a snippet\<close>

lemma window_nat:
  "take (min B (length line) - min A (length line)) (drop (min A (length line)) line)
     = drop A (take B line)"
proof (cases "A \<le> length line")
  case True
  show ?thesis
  proof (cases "B \<le> length line")
    case True
    with \<open>A \<le> length line\<close> show ?thesis by (simp add: drop_take min_def)
  next
    case False
    with True show ?thesis by (simp add: drop_take min_def)
  qed
next
  case False
  then show ?thesis by simp
qed

lemma slice_window:
  assumes "0 \<le> a" "0 \<le> b"
  shows "slice line a b = drop (nat a) (take (nat b) line)"
proof -
  have "nat (min a (int (length line))) = min (nat a) (length line)"
    using assms by arith
  moreover have "nat (max (min b (int (length line)) - min a (int (length line))) 0)
       = min (nat b) (length line) - min (nat a) (length line)"
    using assms by arith
  ultimately show ?thesis
    using assms window_nat [of "nat b" line "nat a"]
    by (simp add: slice_def Let_def del: drop_take)
qed

lemma createPreview_window:
  assumes "line \<noteq> []"
  shows "createPreview line index matchLength =
           (if take (nat (max 0 index) - 40) line = [] then [] else js ''...'')
           @ drop (nat (max 0 index) - 40) (take (nat (max 0 index) + nat (max 1 matchLength) + 40) line)
           @ (if drop (nat (max 0 index) + nat (max 1 matchLength) + 40) line = [] then []
              else js ''...'')"
proof -
  let ?s = "nat (max 0 index)"
  let ?e = "?s + nat (max 1 matchLength)"
  let ?sliceStart = "max 0 (max 0 index - 40)"
  let ?sliceEnd = "min (int (length line)) (max 0 index + max 1 matchLength + 40)"
  have start: "nat ?sliceStart = ?s - 40" by arith
  have fin: "nat ?sliceEnd = min (length line) (?e + 40)" by arith
  have "slice line ?sliceStart ?sliceEnd = drop (nat ?sliceStart) (take (nat ?sliceEnd) line)"
    by (rule slice_window) simp_all
  then have window: "slice line ?sliceStart ?sliceEnd = drop (?s - 40) (take (?e + 40) line)"
    by (simp only: start fin) (simp add: min_def)
  have left: "0 < ?sliceStart \<longleftrightarrow> take (?s - 40) line \<noteq> []"
    using assms by simp arith
  have right: "?sliceEnd < int (length line) \<longleftrightarrow> drop (?e + 40) line \<noteq> []"
    by simp arith
  show ?thesis
    using assms
    by (simp only: createPreview_def Let_def SNIPPET_PADDING_def window left right if_False
          if_not_P) (simp only: if_not_P if_P split: if_splits, auto)
qed

lemma window_partition:
  "line = take (s - k) line @ drop (s - k) (take (e + k) line) @ drop (e + k) line" if "s \<le> e"
  for s e k :: nat
proof -
  have "min (s - k) (e + k) = s - k"
    using that by arith
  then have "take (s - k) line = take (s - k) (take (e + k) line)"
    by simp
  then have "take (s - k) line @ drop (s - k) (take (e + k) line) = take (e + k) line"
    by (simp only: append_take_drop_id)
  then show ?thesis
    by (metis append_assoc append_take_drop_id)
qed

section \<open>The example inputs on the reference platform\<close>

lemma js_cat: "js ''cat'' = [0x63, 0x61, 0x74]"
  by (simp add: js_def)

lemma exampleLine_substring:
  "0 < fst (substringLine referencePlatform
              \<lparr>caseSensitive = False, wholeWord = False, regex = False\<rparr>
              [0x63, 0x61, 0x74] [0x63, 0x61, 0x74, x])"
  by (rule substringLine_contains [where pre = "[]" and post = "refLowerUnit x"])
     (simp_all add: referencePlatform_def refToLowerCase_def refLowerUnit_def)

lemma refToLowerCase_cat: "refToLowerCase [0x63, 0x61, 0x74] = [0x63, 0x61, 0x74]"
  by (simp add: refToLowerCase_def refLowerUnit_def)

lemma refCompile_cat:
  "refCompile [0x63, 0x61, 0x74] (js ''gi'') =
     Some (\<lambda>line i. map_option (\<lambda>e. e - i) (refMatch True [Chr 0x63, Chr 0x61, Chr 0x74] line i))"
  by (simp add: refCompile_def refSyntaxChar_def js_def)

lemma refMatch_cat: "refMatch True [Chr 0x63, Chr 0x61, Chr 0x74] [0x63, 0x61, 0x74, x] 0 = Some 3"
  by (simp add: refCanonicalize_def)

lemma of_nat_16_inj:
  "i < 501 \<Longrightarrow> j < 501 \<Longrightarrow> (of_nat i :: 16 word) = of_nat j \<Longrightarrow> i = j"
  by (simp add: word_of_nat_eq_iff take_bit_nat_eq_self)

lemma exampleLines_distinct: "distinct exampleLines"
  unfolding exampleLines_def
  by (auto simp: distinct_map inj_on_def dest: of_nat_16_inj)

lemma exampleLines_substring:
  "\<exists>scan. lineScan referencePlatform (js ''cat'')
             \<lparr>caseSensitive = False, wholeWord = False, regex = False\<rparr> = Some scan
         \<and> (\<forall>line \<in> set exampleLines. 0 < fst (scan line))"
  by (auto simp: lineScan_def exampleLines_def js_cat referencePlatform_def
        refToLowerCase_cat case_prod_beta
        exampleLine_substring [unfolded referencePlatform_def])

lemma exampleLines_regex:
  "\<exists>scan. lineScan referencePlatform (js ''cat'')
             \<lparr>caseSensitive = False, wholeWord = False, regex = True\<rparr> = Some scan
         \<and> (\<forall>line \<in> set exampleLines. 0 < fst (scan line))"
  by (auto simp: lineScan_def exampleLines_def js_cat referencePlatform_def regexSource_def
        regexFlags_def refCompile_cat refMatch_cat regexFind.simps [of _ _ 0]
        intro!: regexLine_found)

lemma exampleLines_truncated:
  "isTruncated (searchMarkdownLines referencePlatform exampleLines (js ''cat'')
      \<lparr>caseSensitive = False, wholeWord = False, regex = False\<rparr>)"
proof -
  obtain scan where scan: "lineScan referencePlatform (js ''cat'')
      \<lparr>caseSensitive = False, wholeWord = False, regex = False\<rparr> = Some scan"
    and hits: "\<forall>line \<in> set exampleLines. 0 < fst (scan line)"
    using exampleLines_substring by blast
  have "length (specHits scan 0 exampleLines) = 501"
    using specHits_length_all [OF hits] by (simp add: exampleLines_def)
  moreover have "js ''cat'' \<noteq> []" by (simp add: js_def)
  ultimately show ?thesis
    using search_spec [OF _ scan, of exampleLines] by (simp add: specCapped_def)
qed

lemma refCompile_paren:
  "refCompile (regexSource (js ''('') \<lparr>caseSensitive = cs, wholeWord = ww, regex = True\<rparr>) flags = None"
  by (simp add: refCompile_def regexSource_def js_def refSyntaxChar_def)

lemma refCompile_astar:
  "regexCompile referencePlatform (js ''a*'') (js ''g'') = Some astarMatcher"
  by (simp add: referencePlatform_def refCompile_def js_def refSyntaxChar_def astarMatcher_def)

section \<open>The claims\<close>

text \<open>
  Claim C1. With a non-empty query and a pattern that compiles, the result of the search
  is the specification's: the lines are taken in ascending order and each line with an
  occurrence gives one entry; once 500 entries are collected, the next line with an
  occurrence stops the search, which returns the 500 entries collected before that line
  with \<open>isTruncated\<close> set and both totals \<open>-1\<close>. In particular a document of 501 lines
  that all have an occurrence gives a truncated result with 500 entries and totals
  \<open>-1\<close>, in substring mode and in regular expression mode alike.
\<close>

theorem truncation_rule:
  assumes "query \<noteq> []" and "lineScan P query options = Some scan"
  shows "searchMarkdownLines P lines query options = specCapped (specHits scan 0 lines)
       \<and> (length lines = 501 \<and> (\<forall>line \<in> set lines. 0 < fst (scan line)) \<longrightarrow>
            isTruncated (searchMarkdownLines P lines query options)
          \<and> length (matches (searchMarkdownLines P lines query options)) = 500
          \<and> totalOccurrences (searchMarkdownLines P lines query options) = - 1
          \<and> totalMatchedLines (searchMarkdownLines P lines query options) = - 1)"
proof -
  have eq: "searchMarkdownLines P lines query options = specCapped (specHits scan 0 lines)"
    using assms by (rule search_spec)
  moreover have "isTruncated (specCapped hs) \<and> length (matches (specCapped hs)) = 500
      \<and> totalOccurrences (specCapped hs) = - 1 \<and> totalMatchedLines (specCapped hs) = - 1"
    if "length hs = 501" for hs
    using that by (simp add: specCapped_def)
  ultimately show ?thesis
    by (auto simp: specHits_length_all)
qed

theorem truncation_rule_witness:
  "length exampleLines = 501 \<and> distinct exampleLines
   \<and> isTruncated (searchMarkdownLines referencePlatform exampleLines (js ''cat'')
      \<lparr>caseSensitive = False, wholeWord = False, regex = False\<rparr>)
   \<and> length (matches (searchMarkdownLines referencePlatform exampleLines (js ''cat'')
      \<lparr>caseSensitive = False, wholeWord = False, regex = False\<rparr>)) = 500
   \<and> totalOccurrences (searchMarkdownLines referencePlatform exampleLines (js ''cat'')
      \<lparr>caseSensitive = False, wholeWord = False, regex = False\<rparr>) = - 1
   \<and> totalMatchedLines (searchMarkdownLines referencePlatform exampleLines (js ''cat'')
      \<lparr>caseSensitive = False, wholeWord = False, regex = False\<rparr>) = - 1
   \<and> isTruncated (searchMarkdownLines referencePlatform exampleLines (js ''cat'')
      \<lparr>caseSensitive = False, wholeWord = False, regex = True\<rparr>)
   \<and> length (matches (searchMarkdownLines referencePlatform exampleLines (js ''cat'')
      \<lparr>caseSensitive = False, wholeWord = False, regex = True\<rparr>)) = 500
   \<and> totalOccurrences (searchMarkdownLines referencePlatform exampleLines (js ''cat'')
      \<lparr>caseSensitive = False, wholeWord = False, regex = True\<rparr>) = - 1
   \<and> totalMatchedLines (searchMarkdownLines referencePlatform exampleLines (js ''cat'')
      \<lparr>caseSensitive = False, wholeWord = False, regex = True\<rparr>) = - 1"
proof -
  let ?sub = "\<lparr>caseSensitive = False, wholeWord = False, regex = False\<rparr>"
  let ?rx = "\<lparr>caseSensitive = False, wholeWord = False, regex = True\<rparr>"
  have q: "js ''cat'' \<noteq> []" by (simp add: js_def)
  have len: "length exampleLines = 501" by (simp add: exampleLines_def)
  have "\<exists>scan. lineScan referencePlatform (js ''cat'') ?sub = Some scan
          \<and> (\<forall>line \<in> set exampleLines. 0 < fst (scan line))"
    by (rule exampleLines_substring)
  then obtain s1 where s1: "lineScan referencePlatform (js ''cat'') ?sub = Some s1"
    and h1: "\<forall>line \<in> set exampleLines. 0 < fst (s1 line)" by blast
  have "\<exists>scan. lineScan referencePlatform (js ''cat'') ?rx = Some scan
          \<and> (\<forall>line \<in> set exampleLines. 0 < fst (scan line))"
    by (rule exampleLines_regex)
  then obtain s2 where s2: "lineScan referencePlatform (js ''cat'') ?rx = Some s2"
    and h2: "\<forall>line \<in> set exampleLines. 0 < fst (s2 line)" by blast
  from truncation_rule [OF q s1, of exampleLines] truncation_rule [OF q s2, of exampleLines]
    len h1 h2 exampleLines_distinct
  show ?thesis by blast
qed

text \<open>
  Claim C2. For every compiled pattern and every line the scan of regular expression
  mode terminates: the transition relation of its loop is well-founded, because every
  turn of the loop moves \<^verbatim>\<open>lastIndex\<close> forward by at least one position, also after a
  match of length zero; and the number of occurrences it reports is at most the length of
  the line plus one. The witness runs the pattern \<^verbatim>\<open>a*\<close> on the line \<^verbatim>\<open>baa\<close>.
\<close>

theorem regex_scan_terminates:
  "wf (regexLoopRel m line)
   \<and> (\<forall>st st'. regexStep m line st = Some st' \<longrightarrow> fst st + 1 \<le> fst st')
   \<and> fst (regexLine m line) \<le> length line + 1"
proof (intro conjI allI impI)
  show "wf (regexLoopRel m line)"
    by (rule wf_subset [OF wf_measure regexLoopRel_measure])
next
  fix st st' assume "regexStep m line st = Some st'"
  then show "fst st + 1 \<le> fst st'"
    using regexStep_advances [of m line "fst st" "snd st" "fst st'" "snd st'"] by simp
next
  show "fst (regexLine m line) \<le> length line + 1"
    using regexScan_bound [of m line "(0, 0, - 1, 0)"] by (simp add: regexLine_def)
qed

theorem regex_scan_terminates_witness:
  "regexCompile referencePlatform (js ''a*'') (js ''g'') = Some astarMatcher
   \<and> regexStep astarMatcher (js ''baa'') (0, 0, - 1, 0) = Some (1, 1, 0, 1)
   \<and> regexLine astarMatcher (js ''baa'') = (3, 0, 1)
   \<and> fst (regexLine astarMatcher (js ''baa'')) \<le> length (js ''baa'') + 1
   \<and> wf (regexLoopRel astarMatcher (js ''baa''))"
proof -
  have "regexStep astarMatcher (js ''baa'') (0, 0, - 1, 0) = Some (1, 1, 0, 1)"
    by code_simp
  moreover have "regexLine astarMatcher (js ''baa'') = (3, 0, 1)"
    by code_simp
  ultimately show ?thesis
    using regex_scan_terminates [of astarMatcher "js ''baa''"] refCompile_astar by blast
qed

text \<open>
  What regular expression mode does when the source it hands to the compiler is
  rejected: it returns the result with the fixed message, no matches and zero totals.
  Under \<open>wholeWord\<close> that source is the wrapped text and not the pattern itself.
\<close>

lemma searchByRegex_compile_failure:
  assumes "regexCompile P (regexSource query options) (regexFlags options) = None"
  shows "searchByRegex P lines query options =
           \<lparr>matches = [], totalOccurrences = 0, totalMatchedLines = 0,
            isTruncated = False, errorMessage = Some ''Invalid regular expression.''\<rparr>
       \<and> (regex options \<and> query \<noteq> [] \<longrightarrow>
            searchMarkdownLines P lines query options =
              \<lparr>matches = [], totalOccurrences = 0, totalMatchedLines = 0,
               isTruncated = False, errorMessage = Some ''Invalid regular expression.''\<rparr>)"
  using assms by (simp add: searchMarkdownLines_def searchByRegex_def errorResult_def)

text \<open>
  Claim C3, at an input where the code departs from it. The pattern \<^verbatim>\<open>)(?:\<close> does not
  compile, and without \<open>wholeWord\<close> the search returns the error result. With
  \<open>wholeWord\<close> the code compiles the concatenation \<^verbatim>\<open>\b(?:)(?:)\b\<close>, in which the
  unmatched parenthesis of the pattern closes the group of the wrapper; that text
  compiles, and the search returns two occurrences on the line \<^verbatim>\<open>cat\<close> and no error
  message.
\<close>

theorem wholeWord_wrap_accepts_invalid_pattern:
  "regexCompile referencePlatform (js '')(?:'') (js ''gi'') = None
   \<and> errorMessage (searchMarkdownLines referencePlatform [js ''cat''] (js '')(?:'')
        \<lparr>caseSensitive = False, wholeWord = False, regex = True\<rparr>)
       = Some ''Invalid regular expression.''
   \<and> regexSource (js '')(?:'') \<lparr>caseSensitive = False, wholeWord = True, regex = True\<rparr>
       = [0x5C, 0x62] @ js ''(?:)(?:)'' @ [0x5C, 0x62]
   \<and> errorMessage (searchMarkdownLines referencePlatform [js ''cat''] (js '')(?:'')
        \<lparr>caseSensitive = False, wholeWord = True, regex = True\<rparr>) = None
   \<and> map occurrences (matches (searchMarkdownLines referencePlatform [js ''cat''] (js '')(?:'')
        \<lparr>caseSensitive = False, wholeWord = True, regex = True\<rparr>)) = [2]"
  by code_simp

text \<open>
  Claim C4, at an input where the code departs from it. Substring mode finds a candidate
  in the lower-cased line and tests the word boundaries in the original line at the same
  index. Lower-casing U+0130 gives two code units, so in the line U+0130, space,
  \<^verbatim>\<open>cat\<close> the candidate is found at index 3 of the lower-cased line, while in the line
  itself \<^verbatim>\<open>cat\<close> stands at index 2 between a space and the end of the line. The
  case-insensitive whole-word search reports no match; the case-sensitive one counts the
  occurrence.
\<close>

theorem wholeWord_lowercase_misaligned:
  "toLowerCase referencePlatform ([0x130] @ js '' cat'') = [0x69, 0x307] @ js '' cat''
   \<and> hasWordBoundaries referencePlatform ([0x130] @ js '' cat'') 2 3
   \<and> matches (searchMarkdownLines referencePlatform [[0x130] @ js '' cat''] (js ''cat'')
        \<lparr>caseSensitive = False, wholeWord = True, regex = False\<rparr>) = []
   \<and> map occurrences (matches (searchMarkdownLines referencePlatform [[0x130] @ js '' cat'']
        (js ''cat'') \<lparr>caseSensitive = True, wholeWord = True, regex = False\<rparr>)) = [1]"
  by code_simp

text \<open>
  Claim C5, at inputs where the code departs from it. Regular expression mode compiles
  \<^verbatim>\<open>\b(?:query)\b\<close> without the \<^verbatim>\<open>u\<close> flag, and the word characters of \<^verbatim>\<open>\b\<close> are
  the ASCII letters, digits and underscore. In the line U+00E9 followed by \<^verbatim>\<open>clair\<close>
  the pattern \<^verbatim>\<open>clair\<close> is counted as a whole word although U+00E9 is a letter;
  substring mode on the same input counts nothing. For the query \<^verbatim>\<open>-\<close>, regular
  expression mode counts the occurrence in \<^verbatim>\<open>a-b\<close>, which is flanked by word
  characters, and not the one in \<^verbatim>\<open>a - b\<close>, which is flanked by spaces; substring mode
  does the opposite.
\<close>

theorem regex_wholeWord_ascii_boundary:
  "isWordCharacter referencePlatform (Some 0xE9)
   \<and> map occurrences (matches (searchMarkdownLines referencePlatform [[0xE9] @ js ''clair'']
        (js ''clair'') \<lparr>caseSensitive = False, wholeWord = True, regex = True\<rparr>)) = [1]
   \<and> matches (searchMarkdownLines referencePlatform [[0xE9] @ js ''clair'']
        (js ''clair'') \<lparr>caseSensitive = False, wholeWord = True, regex = False\<rparr>) = []
   \<and> map lineNumber (matches (searchMarkdownLines referencePlatform [js ''a-b'', js ''a - b'']
        (js ''-'') \<lparr>caseSensitive = False, wholeWord = True, regex = True\<rparr>)) = [1]
   \<and> map lineNumber (matches (searchMarkdownLines referencePlatform [js ''a-b'', js ''a - b'']
        (js ''-'') \<lparr>caseSensitive = False, wholeWord = True, regex = False\<rparr>)) = [2]"
  by code_simp

text \<open>
  Claim C6. In substring mode with a non-empty query, the occurrence count of a line is
  the number of matches of the specification's scan (left to right, resuming at
  \<open>p + max 1 (length q)\<close> after a match at \<open>p\<close>) that pass the whole-word test when
  \<open>wholeWord\<close> is set; without \<open>caseSensitive\<close> the scan runs on the lower-cased line
  with the lower-cased query.
\<close>

theorem substring_scan_count:
  assumes "normalizedQuery = (if caseSensitive options then query else toLowerCase P query)"
    and "searchTarget = (if caseSensitive options then line else toLowerCase P line)"
    and "normalizedQuery \<noteq> []"
  shows "fst (substringLine P options normalizedQuery line) =
           length (filter (\<lambda>p. \<not> wholeWord options
                              \<or> hasWordBoundaries P line (int p) (int (length normalizedQuery)))
                    (specMatches normalizedQuery searchTarget 0 0))"
  using substringScan_spec [OF assms(3), of P options line searchTarget 0 0 "- 1"] assms(2)
  by (simp add: substringLine_def Let_def)

theorem substring_scan_count_witness:
  "specMatches (js ''cat'') (js ''concatenate cat category'') 0 0 = [3, 12, 16]
   \<and> fst (substringLine referencePlatform \<lparr>caseSensitive = False, wholeWord = False, regex = False\<rparr>
          (js ''cat'') (js ''Concatenate CAT category'')) = 3
   \<and> specMatches (js ''aa'') (js ''aaaaa'') 0 0 = [0, 2]
   \<and> fst (substringLine referencePlatform \<lparr>caseSensitive = True, wholeWord = False, regex = False\<rparr>
          (js ''aa'') (js ''aaaaa'')) = 2"
proof -
  have a: "js ''cat'' = (if caseSensitive \<lparr>caseSensitive = False, wholeWord = False, regex = False\<rparr>
             then js ''Cat'' else toLowerCase referencePlatform (js ''Cat''))"
    "js ''concatenate cat category'' =
       (if caseSensitive \<lparr>caseSensitive = False, wholeWord = False, regex = False\<rparr>
        then js ''Concatenate CAT category''
        else toLowerCase referencePlatform (js ''Concatenate CAT category''))"
    "js ''cat'' \<noteq> []"
    by code_simp+
  have b: "js ''aa'' = (if caseSensitive \<lparr>caseSensitive = True, wholeWord = False, regex = False\<rparr>
             then js ''aa'' else toLowerCase referencePlatform (js ''aa''))"
    "js ''aaaaa'' = (if caseSensitive \<lparr>caseSensitive = True, wholeWord = False, regex = False\<rparr>
             then js ''aaaaa'' else toLowerCase referencePlatform (js ''aaaaa''))"
    "js ''aa'' \<noteq> []"
    by code_simp+
  have c: "specMatches (js ''cat'') (js ''concatenate cat category'') 0 0 = [3, 12, 16]"
    "specMatches (js ''aa'') (js ''aaaaa'') 0 0 = [0, 2]"
    by code_simp+
  from substring_scan_count [OF a] substring_scan_count [OF b] c
  show ?thesis by simp
qed

text \<open>
  Claim C7. When the query is empty after trimming, in particular when it consists of
  white space only, the search returns the idle result whatever the lines and the options
  are.
\<close>

theorem empty_query_idle:
  assumes "trim debouncedQuery = [] \<or> (\<forall>c \<in> set debouncedQuery. isWhiteSpace c)"
  shows "search P lines debouncedQuery options =
           \<lparr>matches = [], totalOccurrences = 0, totalMatchedLines = 0,
            isTruncated = False, errorMessage = None\<rparr>"
proof -
  from assms have "trim debouncedQuery = []"
    using trim_whitespace by blast
  then show ?thesis
    by (simp add: search_def searchMarkdownLines_def idleResult_def)
qed

theorem empty_query_idle_witness:
  "search referencePlatform [js ''cat'', js ''a cat''] [0x20, 0x09, 0x20]
      \<lparr>caseSensitive = False, wholeWord = False, regex = True\<rparr> =
     \<lparr>matches = [], totalOccurrences = 0, totalMatchedLines = 0,
      isTruncated = False, errorMessage = None\<rparr>
   \<and> search referencePlatform [js ''cat'', js ''a cat''] []
      \<lparr>caseSensitive = True, wholeWord = True, regex = False\<rparr> =
     \<lparr>matches = [], totalOccurrences = 0, totalMatchedLines = 0,
      isTruncated = False, errorMessage = None\<rparr>"
proof -
  have "\<forall>c \<in> set [0x20, 0x09, 0x20 :: jschar]. isWhiteSpace c"
    by (simp add: isWhiteSpace_def)
  moreover have "trim [] = []"
    by (simp add: trim_def)
  ultimately show ?thesis
    using empty_query_idle [of "[0x20, 0x09, 0x20]"] empty_query_idle [of "[]"] by blast
qed

text \<open>
  Claim C8. In a result that is not truncated and carries no error message,
  \<open>totalOccurrences\<close> is the sum of the \<open>occurrences\<close> of the entries of \<open>matches\<close> and
  \<open>totalMatchedLines\<close> is their number, in both modes.
\<close>

theorem totals_when_complete:
  assumes "\<not> isTruncated (searchMarkdownLines P lines query options)"
    and "errorMessage (searchMarkdownLines P lines query options) = None"
  shows "totalOccurrences (searchMarkdownLines P lines query options) =
           sum_list (map (\<lambda>m. int (occurrences m)) (matches (searchMarkdownLines P lines query options)))
       \<and> totalMatchedLines (searchMarkdownLines P lines query options) =
           int (length (matches (searchMarkdownLines P lines query options)))"
  using search_cases [of P lines query options] assms specCapped_totals
  by (auto simp: idleResult_def errorResult_def)

theorem totals_when_complete_witness:
  "\<not> isTruncated (searchMarkdownLines referencePlatform smallDocument (js ''cat'')
      \<lparr>caseSensitive = False, wholeWord = False, regex = False\<rparr>)
   \<and> errorMessage (searchMarkdownLines referencePlatform smallDocument (js ''cat'')
      \<lparr>caseSensitive = False, wholeWord = False, regex = False\<rparr>) = None
   \<and> map occurrences (matches (searchMarkdownLines referencePlatform smallDocument (js ''cat'')
      \<lparr>caseSensitive = False, wholeWord = False, regex = False\<rparr>)) = [3, 1]
   \<and> totalOccurrences (searchMarkdownLines referencePlatform smallDocument (js ''cat'')
      \<lparr>caseSensitive = False, wholeWord = False, regex = False\<rparr>) = 4
   \<and> totalMatchedLines (searchMarkdownLines referencePlatform smallDocument (js ''cat'')
      \<lparr>caseSensitive = False, wholeWord = False, regex = False\<rparr>) = 2
   \<and> map occurrences (matches (searchMarkdownLines referencePlatform smallDocument (js ''cat'')
      \<lparr>caseSensitive = True, wholeWord = False, regex = True\<rparr>)) = [3]
   \<and> totalOccurrences (searchMarkdownLines referencePlatform smallDocument (js ''cat'')
      \<lparr>caseSensitive = True, wholeWord = False, regex = True\<rparr>) = 3
   \<and> totalMatchedLines (searchMarkdownLines referencePlatform smallDocument (js ''cat'')
      \<lparr>caseSensitive = True, wholeWord = False, regex = True\<rparr>) = 1"
proof -
  let ?r = "searchMarkdownLines referencePlatform smallDocument (js ''cat'')
      \<lparr>caseSensitive = False, wholeWord = False, regex = False\<rparr>"
  let ?s = "searchMarkdownLines referencePlatform smallDocument (js ''cat'')
      \<lparr>caseSensitive = True, wholeWord = False, regex = True\<rparr>"
  have r: "\<not> isTruncated ?r" "errorMessage ?r = None" "map occurrences (matches ?r) = [3, 1]"
    by code_simp+
  have s: "\<not> isTruncated ?s" "errorMessage ?s = None" "map occurrences (matches ?s) = [3]"
    by code_simp+
  have sum: "(\<Sum>m\<leftarrow>ms. int (occurrences m)) = sum_list (map int (map occurrences ms))" for ms
    by (simp add: comp_def)
  have len: "length ms = length (map occurrences ms)" for ms :: "LineMatch list"
    by simp
  have "totalOccurrences ?r = 4 \<and> totalMatchedLines ?r = 2"
    using totals_when_complete [OF r(1,2)] by (simp only: sum len [of "matches ?r"] r(3)) simp
  moreover have "totalOccurrences ?s = 3 \<and> totalMatchedLines ?s = 1"
    using totals_when_complete [OF s(1,2)] by (simp only: sum len [of "matches ?s"] s(3)) simp
  ultimately show ?thesis
    using r s by blast
qed

text \<open>
  Claim C9. The preview of an empty line is the placeholder. Otherwise, with \<open>s\<close> the
  start and \<open>e\<close> the end of the match span (the offset and the length as given when they
  are at least 0 and 1, which is what the search passes; smaller values are taken as 0
  and 1), the line splits into what is cut off on the left, the window from \<open>s - 40\<close> to
  \<open>e + 40\<close> clamped to the line, and what is cut off on the right; the preview is the
  window with an ellipsis before it exactly when the left part is not empty and an
  ellipsis after it exactly when the right part is not empty. A match at the start of the
  line has no leading ellipsis; a match more than 40 code units from both ends has both.
\<close>

theorem preview_window:
  assumes "s = nat (max 0 index)" and "e = s + nat (max 1 matchLength)"
  shows "createPreview [] index matchLength = js ''(empty line)''
       \<and> (line \<noteq> [] \<longrightarrow>
            line = take (s - 40) line @ drop (s - 40) (take (e + 40) line) @ drop (e + 40) line
          \<and> createPreview line index matchLength =
              (if take (s - 40) line = [] then [] else js ''...'')
              @ drop (s - 40) (take (e + 40) line)
              @ (if drop (e + 40) line = [] then [] else js ''...''))
       \<and> (line \<noteq> [] \<and> index = 0 \<longrightarrow>
            createPreview line index matchLength =
              take (e + 40) line @ (if drop (e + 40) line = [] then [] else js ''...''))
       \<and> (40 < index \<and> index + max 1 matchLength + 40 < int (length line) \<longrightarrow>
            createPreview line index matchLength =
              js ''...'' @ drop (s - 40) (take (e + 40) line) @ js ''...'')"
proof -
  have cw: "createPreview line index matchLength =
      (if take (s - 40) line = [] then [] else js ''...'')
      @ drop (s - 40) (take (e + 40) line)
      @ (if drop (e + 40) line = [] then [] else js ''...'')" if "line \<noteq> []"
    using createPreview_window [OF that, of index matchLength] assms by simp
  have empty: "createPreview [] index matchLength = js ''(empty line)''"
    by (simp add: createPreview_def)
  have "s \<le> e" using assms by simp
  then have part: "line = take (s - 40) line @ drop (s - 40) (take (e + 40) line) @ drop (e + 40) line"
    by (rule window_partition)
  have start: "createPreview line index matchLength =
      take (e + 40) line @ (if drop (e + 40) line = [] then [] else js ''...'')"
    if "line \<noteq> [] \<and> index = 0"
  proof -
    from that assms have "s = 0" by simp
    with cw that show ?thesis by simp
  qed
  have both: "createPreview line index matchLength =
      js ''...'' @ drop (s - 40) (take (e + 40) line) @ js ''...''"
    if far: "40 < index \<and> index + max 1 matchLength + 40 < int (length line)"
  proof -
    from far have ne: "line \<noteq> []" by auto
    from far assms have "40 < s" by arith
    with ne have left: "take (s - 40) line \<noteq> []" by simp
    from far assms have "e + 40 < length line" by arith
    then have right: "drop (e + 40) line \<noteq> []" by simp
    from cw [OF ne] left right show ?thesis by (simp only: if_False)
  qed
  from empty part cw start both show ?thesis by blast
qed

theorem preview_window_witness:
  "createPreview [] 50 3 = js ''(empty line)''
   \<and> createPreview longLine 50 3 =
       js ''...'' @ replicate 40 0x78 @ js ''cat'' @ replicate 40 0x79 @ js ''...''
   \<and> createPreview (js ''cat'' @ replicate 50 0x79) 0 3 =
       js ''cat'' @ replicate 40 0x79 @ js ''...''"
proof -
  have far: "(40::int) < 50 \<and> 50 + max 1 3 + 40 < int (length longLine)"
    by (simp add: longLine_def js_def)
  have w1: "drop (50 - 40) (take (53 + 40) longLine) = replicate 40 0x78 @ js ''cat'' @ replicate 40 0x79"
    by code_simp
  have ne: "js ''cat'' @ replicate 50 0x79 \<noteq> [] \<and> (0::int) = 0"
    by (simp add: js_def)
  have w2: "take (3 + 40) (js ''cat'' @ replicate 50 0x79) = js ''cat'' @ replicate 40 0x79"
    "drop (3 + 40) (js ''cat'' @ replicate 50 0x79) \<noteq> []"
    by code_simp+
  have s1: "(50::nat) = nat (max 0 50)" and e1: "(53::nat) = 50 + nat (max 1 3)"
    and s2: "(0::nat) = nat (max 0 0)" and e2: "(3::nat) = 0 + nat (max 1 3)"
    by simp_all
  have p1: "createPreview [] 50 3 = js ''(empty line)''"
    and p2: "createPreview longLine 50 3 =
      js ''...'' @ drop (50 - 40) (take (53 + 40) longLine) @ js ''...''"
    using preview_window [OF s1 e1, of longLine] far by blast+
  have p3: "createPreview (js ''cat'' @ replicate 50 0x79) 0 3 =
      take (3 + 40) (js ''cat'' @ replicate 50 0x79)
      @ (if drop (3 + 40) (js ''cat'' @ replicate 50 0x79) = [] then [] else js ''...'')"
    using preview_window [OF s2 e2, of "js ''cat'' @ replicate 50 0x79"] ne by blast
  show ?thesis
    by (simp only: p1 p2 p3 w1 w2 if_False append_assoc simp_thms)
qed

text \<open>
  Claim C10. A truncated result has exactly 500 entries and no error message, and a
  result with an error message is not truncated.
\<close>

theorem truncation_error_exclusive:
  "(isTruncated (searchMarkdownLines P lines query options) \<longrightarrow>
      length (matches (searchMarkdownLines P lines query options)) = 500
      \<and> errorMessage (searchMarkdownLines P lines query options) = None)
   \<and> (errorMessage (searchMarkdownLines P lines query options) \<noteq> None \<longrightarrow>
      \<not> isTruncated (searchMarkdownLines P lines query options))"
  using search_cases [of P lines query options] specCapped_truncated
  by (auto simp: idleResult_def errorResult_def)

theorem truncation_error_exclusive_witness:
  "isTruncated (searchMarkdownLines referencePlatform exampleLines (js ''cat'')
      \<lparr>caseSensitive = False, wholeWord = False, regex = False\<rparr>)
   \<and> length (matches (searchMarkdownLines referencePlatform exampleLines (js ''cat'')
      \<lparr>caseSensitive = False, wholeWord = False, regex = False\<rparr>)) = 500
   \<and> errorMessage (searchMarkdownLines referencePlatform exampleLines (js ''cat'')
      \<lparr>caseSensitive = False, wholeWord = False, regex = False\<rparr>) = None
   \<and> errorMessage (searchMarkdownLines referencePlatform exampleLines (js ''('')
      \<lparr>caseSensitive = False, wholeWord = False, regex = True\<rparr>) \<noteq> None
   \<and> \<not> isTruncated (searchMarkdownLines referencePlatform exampleLines (js ''('')
      \<lparr>caseSensitive = False, wholeWord = False, regex = True\<rparr>)"
proof -
  have "errorMessage (searchMarkdownLines referencePlatform exampleLines (js ''('')
      \<lparr>caseSensitive = False, wholeWord = False, regex = True\<rparr>) \<noteq> None"
  proof -
    have "js ''('' \<noteq> []" by (simp add: js_def)
    moreover have "lineScan referencePlatform (js ''('')
        \<lparr>caseSensitive = False, wholeWord = False, regex = True\<rparr> = None"
      by (simp add: lineScan_None referencePlatform_def refCompile_paren)
    ultimately show ?thesis
      using search_error [of "js ''(''" referencePlatform _ exampleLines]
      by (simp add: errorResult_def)
  qed
  with exampleLines_truncated
    truncation_error_exclusive [of referencePlatform exampleLines "js ''cat''"
      "\<lparr>caseSensitive = False, wholeWord = False, regex = False\<rparr>"]
    truncation_error_exclusive [of referencePlatform exampleLines "js ''(''"
      "\<lparr>caseSensitive = False, wholeWord = False, regex = True\<rparr>"]
  show ?thesis by blast
qed

end
